theory Spec2Isabelle
  imports Complex_Main "HOL-Library.Multiset"
begin

section \<open>Data model\<close>

text \<open>
  A shallow embedding of \<^verbatim>\<open>celer/homotopy.py\<close> (\<^verbatim>\<open>celer_path\<close>) and
  \<^verbatim>\<open>celer/wrapper.py\<close> (\<^verbatim>\<open>celer\<close>).

  Floating-point numbers are modelled as \<open>real\<close>; a value numpy would compute as
  \<^verbatim>\<open>inf\<close> or \<^verbatim>\<open>nan\<close> has no counterpart, and the model stops with
  \<open>Non_finite\<close> where the source would produce one. Python integers are \<open>int\<close>.

  Arrays that the source shares by reference live in a store of flat buffers: the
  \<^verbatim>\<open>coefs\<close> matrix (Fortran order, so column \<open>t\<close> is the slice starting at
  \<open>t * n_features\<close>), the caller's \<^verbatim>\<open>coef_init\<close> and every \<^verbatim>\<open>w_init\<close>
  buffer handed to the inner solver. All other arrays are only read and are values.
\<close>

type_synonym vec = "real list"
type_synonym addr = nat

datatype error = ValueError | IndexError | TypeError | Non_finite

datatype matrix =
    Dense nat "vec list"
  | Csc nat "real list" "nat list" "nat list"

text \<open>
  \<open>Dense n cols\<close> is an \<open>n \<times> length cols\<close> array given by its columns;
  \<open>Csc n data indices indptr\<close> is scipy's compressed sparse column matrix with \<open>n\<close> rows.
\<close>

fun shape :: "matrix \<Rightarrow> nat \<times> nat" where
  "shape (Dense n cols) = (n, length cols)"
| "shape (Csc n data indices indptr) = (n, length indptr - 1)"

fun issparse :: "matrix \<Rightarrow> bool" where
  "issparse (Dense n cols) = False"
| "issparse (Csc n data indices indptr) = True"

definition dot :: "vec \<Rightarrow> vec \<Rightarrow> real" where
  "dot u v = sum_list (map2 (*) u v)"

fun XT_dot :: "matrix \<Rightarrow> vec \<Rightarrow> vec" where
  "XT_dot (Dense n cols) y = map (\<lambda>c. dot c y) cols"
| "XT_dot (Csc n data indices indptr) y =
     map (\<lambda>j. sum_list (map (\<lambda>k. data ! k * y ! (indices ! k)) [indptr ! j..<indptr ! Suc j]))
       [0..<length indptr - 1]"

subsection \<open>The store\<close>

record heap =
  cells :: "addr \<Rightarrow> vec"
  brk :: addr

text \<open>Every address below \<open>brk\<close> is in use; a new array is placed at \<open>brk\<close>.\<close>

definition alloc :: "heap \<Rightarrow> vec \<Rightarrow> addr \<times> heap" where
  "alloc h v = (brk h, h\<lparr>cells := (cells h)(brk h := v), brk := Suc (brk h)\<rparr>)"

definition poke :: "heap \<Rightarrow> addr \<Rightarrow> vec \<Rightarrow> heap" where
  "poke h a v = h\<lparr>cells := (cells h)(a := v)\<rparr>"

definition column :: "nat \<Rightarrow> vec \<Rightarrow> nat \<Rightarrow> vec" where
  "column nf flat t = take nf (drop (t * nf) flat)"

definition set_column :: "nat \<Rightarrow> vec \<Rightarrow> nat \<Rightarrow> vec \<Rightarrow> vec" where
  "set_column nf flat t v = take (t * nf) flat @ v @ drop (Suc t * nf) flat"

definition columns :: "nat \<Rightarrow> nat \<Rightarrow> vec \<Rightarrow> vec list" where
  "columns nf n flat = map (column nf flat) [0..<n]"

subsection \<open>numpy helpers\<close>

definition nnz :: "vec \<Rightarrow> int" where
  "nnz v = int (length (filter (\<lambda>x. x \<noteq> 0) v))"

definition np_max :: "vec \<Rightarrow> error + real" where
  "np_max v = (case v of [] \<Rightarrow> Inl ValueError | x # r \<Rightarrow> Inr (fold max r x))"

definition linspace :: "real \<Rightarrow> real \<Rightarrow> nat \<Rightarrow> vec" where
  "linspace start stop num =
     (if num \<le> 1 then replicate num start
      else map (\<lambda>i. start + real i * ((stop - start) / real (num - 1))) [0..<num - 1] @ [stop])"

definition logspace :: "real \<Rightarrow> real \<Rightarrow> int \<Rightarrow> error + vec" where
  "logspace start stop num =
     (if num < 0 then Inl ValueError
      else Inr (map (\<lambda>e. 10 powr e) (linspace start stop (nat num))))"

definition log10 :: "real \<Rightarrow> error + real" where
  "log10 x = (if 0 < x then Inr (log 10 x) else Inl Non_finite)"

definition np_divide :: "vec \<Rightarrow> vec \<Rightarrow> error + vec" where
  "np_divide a b =
     (if length a \<noteq> length b \<and> length a \<noteq> 1 \<and> length b \<noteq> 1 then Inl ValueError
      else if 0 \<in> set b \<and> a \<noteq> [] then Inl Non_finite
      else if length a = length b then Inr (map2 (/) a b)
      else if length b = 1 then Inr (map (\<lambda>x. x / hd b) a)
      else Inr (map (\<lambda>d. hd a / d) b))"

definition assign_1d :: "nat \<Rightarrow> vec \<Rightarrow> error + vec" where
  "assign_1d n v =
     (if length v = n then Inr v
      else if length v = 1 then Inr (replicate n (hd v))
      else Inl ValueError)"

definition last_entry :: "vec \<Rightarrow> error + real" where
  "last_entry v = (if v = [] then Inl IndexError else Inr (last v))"

definition item0 :: "'a list \<Rightarrow> error + 'a" where
  "item0 xs = (case xs of [] \<Rightarrow> Inl IndexError | x # _ \<Rightarrow> Inr x)"

subsection \<open>Formatting for the verbose banner\<close>

definition digit :: "nat \<Rightarrow> char" where
  "digit d = char_of (48 + d)"

fun str_nat :: "nat \<Rightarrow> string" where
  "str_nat n = (if n < 10 then [digit n] else str_nat (n div 10) @ [digit (n mod 10)])"

declare str_nat.simps [simp del]

definition banner :: "nat \<Rightarrow> string list" where
  "banner t =
     [replicate 60 (CHR ''#''),
      '' ##### Computing '' @ str_nat (t + 1) @ ''th alpha'',
      replicate 60 (CHR ''#'')]"

section \<open>Parameters and collaborators\<close>

record params =
  eps :: real
  n_alphas :: int
  alphas :: "vec option"
  coef_init :: "addr option"
  max_iter :: int
  gap_freq :: int
  max_epochs :: int
  p0 :: int
  verbose :: int
  verbose_inner :: int
  tol :: real
  prune :: int
  return_thetas :: bool
  monitor :: bool
  X_offset :: "vec option"
  X_scale :: "vec option"

record kwargs =
  kw_max_iter :: int
  kw_gap_freq :: int
  kw_max_epochs :: int
  kw_p0 :: int
  kw_verbose :: int
  kw_verbose_inner :: int
  kw_use_accel :: int
  kw_tol :: real
  kw_prune :: int

text \<open>
  One invocation of the inner solver, with the array arguments by content.
  \<open>Celer_sparse data indices indptr X_sparse_scaling y alpha w_init kw\<close> and
  \<open>Celer_dense X y alpha w_init kw\<close> list the arguments in the source's order.
\<close>

datatype solver_call =
    Celer_sparse "real list" "nat list" "nat list" vec vec real vec kwargs
  | Celer_dense matrix vec real vec kwargs

fun call_w_init :: "solver_call \<Rightarrow> vec" where
  "call_w_init (Celer_sparse d i p sc y a w kw) = w"
| "call_w_init (Celer_dense X y a w kw) = w"

fun call_kwargs :: "solver_call \<Rightarrow> kwargs" where
  "call_kwargs (Celer_sparse d i p sc y a w kw) = kw"
| "call_kwargs (Celer_dense X y a w kw) = kw"

fun call_alpha :: "solver_call \<Rightarrow> real" where
  "call_alpha (Celer_sparse d i p sc y a w kw) = a"
| "call_alpha (Celer_dense X y a w kw) = a"

fun call_y :: "solver_call \<Rightarrow> vec" where
  "call_y (Celer_sparse d i p sc y a w kw) = y"
| "call_y (Celer_dense X y a w kw) = y"

fun call_scaling :: "solver_call \<Rightarrow> vec option" where
  "call_scaling (Celer_sparse d i p sc y a w kw) = Some sc"
| "call_scaling (Celer_dense X y a w kw) = None"

text \<open>
  The tuple the inner solver returns: coefficients, dual point, gap trajectory and,
  when it is a 4-tuple, the timing trajectory.
\<close>

record sol =
  sol_w :: vec
  sol_theta :: vec
  sol_gaps :: vec
  sol_times :: "vec option"

text \<open>
  The collaborators act on a world \<open>'x\<close> the path controller cannot see into (the wall
  clock, whatever the solver keeps between calls). The inner solver is given the
  contents of its arguments and returns its tuple together with the contents it leaves
  in the \<^verbatim>\<open>w_init\<close> buffer, the one array argument the controller allocates afresh
  for each call.
\<close>

record 'x env =
  inner_solver :: "solver_call \<Rightarrow> 'x \<Rightarrow> (sol \<times> vec) \<times> 'x"
  time_time :: "'x \<Rightarrow> real \<times> 'x"

section \<open>The path controller\<close>

text \<open>Values fixed before the loop starts.\<close>

record locals =
  n_samples :: nat
  n_features :: nat
  data_is_sparse :: bool
  X_sparse_scaling :: vec
  grid :: vec
  coefs :: addr

text \<open>
  Everything the loop updates. \<open>calls\<close> is the trace of the solver invocations in
  order: the address of the \<^verbatim>\<open>w_init\<close> buffer, the arguments, and the tuple that
  came back. \<open>warned\<close> and \<open>printed\<close> are what went to \<^verbatim>\<open>warnings.warn\<close>
  and to standard output.
\<close>

record 'x pstate =
  store :: heap
  world :: 'x
  thetas :: "vec list"
  dual_gaps :: vec
  all_times :: vec
  gaps_per_alpha :: "vec list"
  times_per_alpha :: "vec list"
  p0' :: int
  calls :: "(addr \<times> solver_call \<times> sol) list"
  warned :: "(string \<times> string) list"
  printed :: "string list"

definition convergence_warning :: "string \<times> string" where
  "convergence_warning =
     (''ConvergenceWarning'',
      ''Objective did not converge.'' @ '' You might want'' @
      '' to increase the number of iterations.'' @
      '' Fitting data with very small alpha'' @
      '' may cause precision problems.'')"

text \<open>Lines 144 to 152: the warm start. Returns the address of \<^verbatim>\<open>w_init\<close>.\<close>

definition warm_start :: "params \<Rightarrow> locals \<Rightarrow> nat \<Rightarrow> 'x pstate \<Rightarrow> addr \<times> 'x pstate" where
  "warm_start P L t st =
     (if t > 0 then
        (let prev = column (n_features L) (cells (store st) (coefs L)) (t - 1);
             (a, h) = alloc (store st) prev
         in (a, st\<lparr>store := h, p0' := max (nnz prev) 1\<rparr>))
      else
        (case coef_init P of
           Some c \<Rightarrow>
             (let v = cells (store st) c;
                  (a, h) = alloc (store st) v
              in (a, st\<lparr>store := h, p0' := max (nnz v) (p0' st)\<rparr>))
         | None \<Rightarrow>
             (let (a, h) = alloc (store st) (replicate (n_features L) 0)
              in (a, st\<lparr>store := h\<rparr>))))"

definition mk_kwargs :: "params \<Rightarrow> int \<Rightarrow> kwargs" where
  "mk_kwargs P p =
     \<lparr>kw_max_iter = max_iter P, kw_gap_freq = gap_freq P, kw_max_epochs = max_epochs P,
      kw_p0 = p, kw_verbose = verbose P, kw_verbose_inner = verbose_inner P,
      kw_use_accel = 1, kw_tol = tol P, kw_prune = prune P\<rparr>"

text \<open>Lines 156 to 167: which solver is called, and with what.\<close>

definition mk_call :: "params \<Rightarrow> locals \<Rightarrow> matrix \<Rightarrow> vec \<Rightarrow> real \<Rightarrow> vec \<Rightarrow> int \<Rightarrow> solver_call" where
  "mk_call P L X y alpha w p =
     (if data_is_sparse L then
        (case X of
           Csc n d i ptr \<Rightarrow> Celer_sparse d i ptr (X_sparse_scaling L) y alpha w (mk_kwargs P p)
         | Dense n cols \<Rightarrow> Celer_dense X y alpha w (mk_kwargs P p))
      else Celer_dense X y alpha w (mk_kwargs P p))"

text \<open>Lines 170 to 173: storing the solver's tuple.\<close>

definition record_solution ::
  "params \<Rightarrow> locals \<Rightarrow> nat \<Rightarrow> sol \<Rightarrow> 'x pstate \<Rightarrow> error + 'x pstate" where
  "record_solution P L t s st =
     (case last_entry (sol_gaps s) of Inl e \<Rightarrow> Inl e | Inr g \<Rightarrow>
      case assign_1d (n_features L) (sol_w s) of Inl e \<Rightarrow> Inl e | Inr wcol \<Rightarrow>
      case assign_1d (n_samples L) (sol_theta s) of Inl e \<Rightarrow> Inl e | Inr row \<Rightarrow>
        (let st1 = st\<lparr>store := poke (store st) (coefs L)
                        (set_column (n_features L) (cells (store st) (coefs L)) t wcol),
                      thetas := (thetas st)[t := row],
                      dual_gaps := (dual_gaps st)[t := g]\<rparr>
         in if monitor P then
              (case sol_times s of
                 None \<Rightarrow> Inl IndexError
               | Some ts \<Rightarrow> Inr (st1\<lparr>gaps_per_alpha := gaps_per_alpha st1 @ [sol_gaps s],
                                     times_per_alpha := times_per_alpha st1 @ [ts]\<rparr>))
            else Inr st1))"

text \<open>Lines 175 to 181.\<close>

definition check_gap :: "params \<Rightarrow> nat \<Rightarrow> 'x pstate \<Rightarrow> 'x pstate" where
  "check_gap P t st =
     (if dual_gaps st ! t > tol P then st\<lparr>warned := warned st @ [convergence_warning]\<rparr>
      else st)"

text \<open>The body of the loop over \<open>t\<close>, lines 140 to 181.\<close>

definition path_iter ::
  "'x env \<Rightarrow> params \<Rightarrow> locals \<Rightarrow> matrix \<Rightarrow> vec \<Rightarrow> nat \<Rightarrow> 'x pstate \<Rightarrow> error + 'x pstate" where
  "path_iter E P L X y t st =
     (let st0 = (if verbose P \<noteq> 0 then st\<lparr>printed := printed st @ banner t\<rparr> else st);
          (w_init, st1) = warm_start P L t st0;
          alpha = grid L ! t;
          (t0, x1) = time_time E (world st1);
          c = mk_call P L X y alpha (cells (store st1) w_init) (p0' st1);
          ((s, w_left), x2) = inner_solver E c x1;
          (t1, x3) = time_time E x2;
          st2 = st1\<lparr>store := poke (store st1) w_init w_left, world := x3,
                    calls := calls st1 @ [(w_init, c, s)],
                    all_times := (all_times st1)[t := t1 - t0]\<rparr>
      in case record_solution P L t s st2 of
           Inl e \<Rightarrow> Inl e
         | Inr st3 \<Rightarrow> Inr (check_gap P t st3))"

fun path_loop ::
  "'x env \<Rightarrow> params \<Rightarrow> locals \<Rightarrow> matrix \<Rightarrow> vec \<Rightarrow> nat list \<Rightarrow> 'x pstate \<Rightarrow> error + 'x pstate" where
  "path_loop E P L X y [] st = Inr st"
| "path_loop E P L X y (t # ts) st =
     (case path_iter E P L X y t st of
        Inl e \<Rightarrow> Inl e
      | Inr st' \<Rightarrow> path_loop E P L X y ts st')"

text \<open>Lines 114 to 120.\<close>

definition sparse_scaling :: "params \<Rightarrow> nat \<Rightarrow> error + vec" where
  "sparse_scaling P nf =
     (case X_offset P of
        Some off \<Rightarrow> (case X_scale P of None \<Rightarrow> Inl TypeError | Some sc \<Rightarrow> np_divide off sc)
      | None \<Rightarrow> Inr (replicate nf 0))"

text \<open>Lines 122 to 127.\<close>

definition alpha_grid :: "params \<Rightarrow> matrix \<Rightarrow> vec \<Rightarrow> error + vec" where
  "alpha_grid P X y =
     (case alphas P of
        None \<Rightarrow>
          (if length y \<noteq> fst (shape X) then Inl ValueError
           else case np_max (map abs (XT_dot X y)) of Inl e \<Rightarrow> Inl e | Inr m \<Rightarrow>
                case log10 (eps P) of Inl e \<Rightarrow> Inl e | Inr l \<Rightarrow>
                case logspace 0 l (n_alphas P) of Inl e \<Rightarrow> Inl e | Inr ls \<Rightarrow>
                  Inr (map (\<lambda>v. m / real (fst (shape X)) * v) ls))
      | Some a \<Rightarrow> Inr (rev (sort a)))"

text \<open>The three shapes of the returned tuple, lines 183 to 189.\<close>

datatype path_result =
    Base vec "vec list" vec
  | With_thetas vec "vec list" vec "vec list"
  | With_monitor vec "vec list" vec "vec list" "vec list" "vec list"

definition assemble :: "params \<Rightarrow> locals \<Rightarrow> 'x pstate \<Rightarrow> path_result" where
  "assemble P L st =
     (let cs = columns (n_features L) (length (grid L)) (cells (store st) (coefs L))
      in if return_thetas P then
           (if monitor P then
              With_monitor (grid L) cs (dual_gaps st) (thetas st)
                (gaps_per_alpha st) (times_per_alpha st)
            else With_thetas (grid L) cs (dual_gaps st) (thetas st))
         else Base (grid L) cs (dual_gaps st))"

definition init_state :: "params \<Rightarrow> locals \<Rightarrow> heap \<Rightarrow> 'x \<Rightarrow> 'x pstate" where
  "init_state P L h x =
     \<lparr>store = h, world = x,
      thetas = replicate (length (grid L)) (replicate (n_samples L) 0),
      dual_gaps = replicate (length (grid L)) 0,
      all_times = replicate (length (grid L)) 0,
      gaps_per_alpha = [], times_per_alpha = [],
      p0' = p0 P, calls = [], warned = [], printed = []\<rparr>"

text \<open>
  \<^verbatim>\<open>celer_path\<close>. \<^verbatim>\<open>check_array\<close> is the validation layer: of what it does, the
  model keeps that it rejects an array with no sample or no feature. The run returns
  the tuple, the values fixed before the loop and the final state, so that the effects
  of the run (solver calls, warnings, the store) can be inspected.
\<close>

definition celer_path ::
  "'x env \<Rightarrow> params \<Rightarrow> matrix \<Rightarrow> vec \<Rightarrow> heap \<Rightarrow> 'x \<Rightarrow> error + (path_result \<times> locals \<times> 'x pstate)" where
  "celer_path E P X y h x =
     (if fst (shape X) = 0 \<or> snd (shape X) = 0 \<or> y = [] then Inl ValueError
      else case sparse_scaling P (snd (shape X)) of Inl e \<Rightarrow> Inl e | Inr sc \<Rightarrow>
           case alpha_grid P X y of Inl e \<Rightarrow> Inl e | Inr g \<Rightarrow>
             (let (ca, h1) = alloc h (replicate (snd (shape X) * length g) 0);
                  L = \<lparr>n_samples = fst (shape X), n_features = snd (shape X),
                       data_is_sparse = issparse X, X_sparse_scaling = sc,
                       grid = g, coefs = ca\<rparr>
              in case path_loop E P L X y [0..<length g] (init_state P L h1 x) of
                   Inl e \<Rightarrow> Inl e
                 | Inr st \<Rightarrow> Inr (assemble P L st, L, st)))"

section \<open>The single-alpha adapter\<close>

text \<open>
  \<^verbatim>\<open>celer\<close> of \<^verbatim>\<open>wrapper.py\<close>. The keyword arguments it does not pass
  (\<^verbatim>\<open>eps\<close>, \<^verbatim>\<open>n_alphas\<close>, \<^verbatim>\<open>max_iter\<close>, the offsets) take the defaults of
  \<^verbatim>\<open>celer_path\<close>.
\<close>

definition celer_params ::
  "real \<Rightarrow> addr option \<Rightarrow> int \<Rightarrow> int \<Rightarrow> int \<Rightarrow> int \<Rightarrow> int \<Rightarrow> real \<Rightarrow> int \<Rightarrow> params" where
  "celer_params alpha w_init gf me p v vi tl' pr =
     \<lparr>eps = 1 / 1000, n_alphas = 100, alphas = Some [alpha], coef_init = w_init,
      max_iter = 20, gap_freq = gf, max_epochs = me, p0 = p, verbose = v,
      verbose_inner = vi, tol = tl', prune = pr, return_thetas = True, monitor = True,
      X_offset = None, X_scale = None\<rparr>"

definition celer ::
  "'x env \<Rightarrow> matrix \<Rightarrow> vec \<Rightarrow> real \<Rightarrow> addr option \<Rightarrow> int \<Rightarrow> int \<Rightarrow> int \<Rightarrow> int \<Rightarrow> int \<Rightarrow> int
     \<Rightarrow> real \<Rightarrow> int \<Rightarrow> heap \<Rightarrow> 'x \<Rightarrow> error + (vec \<times> vec \<times> vec \<times> vec)" where
  "celer E X y alpha w_init mi gf me p v vi tl' pr h x =
     (case celer_path E (celer_params alpha w_init gf me p v vi tl' pr) X y h x of
        Inl e \<Rightarrow> Inl e
      | Inr (res, L, st) \<Rightarrow>
          (case res of
             With_monitor als cs dg ths all_gaps all_tms \<Rightarrow>
               (case item0 cs of Inl e \<Rightarrow> Inl e | Inr w \<Rightarrow>
                case item0 ths of Inl e \<Rightarrow> Inl e | Inr theta \<Rightarrow>
                case item0 all_gaps of Inl e \<Rightarrow> Inl e | Inr gaps \<Rightarrow>
                case item0 all_tms of Inl e \<Rightarrow> Inl e | Inr tms \<Rightarrow>
                  Inr (w, theta, gaps, tms))
           | _ \<Rightarrow> Inl ValueError))"

section \<open>A concrete solver for worked examples\<close>

text \<open>
  A stand-in for the inner solver, used only to run the controller on concrete inputs.
  It overwrites the buffer it is given, answers with \<open>nf\<close> coefficients equal to
  \<open>alpha\<close> and a dual point of \<open>ns\<close> zeros, and its last gap is
  \<open>alpha / max_iter\<close>. The world is a counter that the clock reads.
\<close>

definition probe_solver :: "nat \<Rightarrow> nat \<Rightarrow> solver_call \<Rightarrow> nat \<Rightarrow> (sol \<times> vec) \<times> nat" where
  "probe_solver ns nf c x =
     ((\<lparr>sol_w = replicate nf (call_alpha c), sol_theta = replicate ns 0,
        sol_gaps = [1, call_alpha c / real_of_int (kw_max_iter (call_kwargs c))],
        sol_times = Some [1 / 2, 1]\<rparr>,
       replicate (length (call_w_init c)) 7), Suc x)"

definition probe_env :: "nat \<Rightarrow> nat \<Rightarrow> nat env" where
  "probe_env ns nf = \<lparr>inner_solver = probe_solver ns nf, time_time = (\<lambda>x. (real x, Suc x))\<rparr>"

definition probe_params :: params where
  "probe_params =
     \<lparr>eps = 1 / 1000, n_alphas = 100, alphas = Some [1 / 10, 1], coef_init = None,
      max_iter = 20, gap_freq = 10, max_epochs = 50000, p0 = 10, verbose = 0,
      verbose_inner = 0, tol = 1 / 100, prune = 0, return_thetas = False, monitor = False,
      X_offset = None, X_scale = None\<rparr>"

definition probe_X :: matrix where
  "probe_X = Dense 3 [[1, 0, 1], [0, 1, 1]]"

definition probe_Xs :: matrix where
  "probe_Xs = Csc 3 [1, 1, 1, 1] [0, 2, 1, 2] [0, 2, 4]"

definition probe_y :: vec where
  "probe_y = [1, 1, 2]"

definition probe_heap :: heap where
  "probe_heap = \<lparr>cells = (\<lambda>a. []), brk = 0\<rparr>"

text \<open>A store that already holds the caller's initial vector at address 0.\<close>

definition probe_heap1 :: heap where
  "probe_heap1 = \<lparr>cells = (\<lambda>a. [])(0 := [0, 5]), brk = 1\<rparr>"

text \<open>What \<open>probe_solver 3 2\<close> answers at penalty \<open>a\<close> with \<^verbatim>\<open>max_iter=20\<close>.\<close>

definition probe_sol :: "real \<Rightarrow> sol" where
  "probe_sol a =
     \<lparr>sol_w = [a, a], sol_theta = [0, 0, 0], sol_gaps = [1, a / 20],
      sol_times = Some [1 / 2, 1]\<rparr>"

section \<open>Reading a run\<close>

fun result_alphas :: "path_result \<Rightarrow> vec" where
  "result_alphas (Base a c g) = a"
| "result_alphas (With_thetas a c g th) = a"
| "result_alphas (With_monitor a c g th gs ts) = a"

fun result_coefs :: "path_result \<Rightarrow> vec list" where
  "result_coefs (Base a c g) = c"
| "result_coefs (With_thetas a c g th) = c"
| "result_coefs (With_monitor a c g th gs ts) = c"

fun result_gaps :: "path_result \<Rightarrow> vec" where
  "result_gaps (Base a c g) = g"
| "result_gaps (With_thetas a c g th) = g"
| "result_gaps (With_monitor a c g th gs ts) = g"

fun result_thetas :: "path_result \<Rightarrow> vec list option" where
  "result_thetas (Base a c g) = None"
| "result_thetas (With_thetas a c g th) = Some th"
| "result_thetas (With_monitor a c g th gs ts) = Some th"

fun result_monitor :: "path_result \<Rightarrow> (vec list \<times> vec list) option" where
  "result_monitor (Base a c g) = None"
| "result_monitor (With_thetas a c g th) = None"
| "result_monitor (With_monitor a c g th gs ts) = Some (gs, ts)"

text \<open>What the caller gets back: the raised error or the returned tuple.\<close>

definition returned :: "error + (path_result \<times> locals \<times> 'x pstate) \<Rightarrow> error + path_result" where
  "returned r = (case r of Inl e \<Rightarrow> Inl e | Inr (res, L, st) \<Rightarrow> Inr res)"

text \<open>The solver invocations of a run, in order (none if it raised).\<close>

definition trace_of ::
  "error + (path_result \<times> locals \<times> 'x pstate) \<Rightarrow> (addr \<times> solver_call \<times> sol) list" where
  "trace_of r = (case r of Inl e \<Rightarrow> [] | Inr (res, L, st) \<Rightarrow> calls st)"

text \<open>
  The inner solver's contract (its output shapes): coefficients of length \<open>nf\<close>, a dual
  point of length \<open>ns\<close>, at least one gap, and a timing trajectory when monitoring
  will read it.
\<close>

definition solver_contract :: "'x env \<Rightarrow> params \<Rightarrow> nat \<Rightarrow> nat \<Rightarrow> bool" where
  "solver_contract E P ns nf \<longleftrightarrow>
     (\<forall>c x. length (sol_w (fst (fst (inner_solver E c x)))) = nf \<and>
            length (sol_theta (fst (fst (inner_solver E c x)))) = ns \<and>
            sol_gaps (fst (fst (inner_solver E c x))) \<noteq> [] \<and>
            (monitor P \<longrightarrow> sol_times (fst (fst (inner_solver E c x))) \<noteq> None))"

text \<open>A deterministic solver: what it returns depends on its arguments only.\<close>

definition same_solver :: "'x env \<Rightarrow> 'z env \<Rightarrow> bool" where
  "same_solver E E' \<longleftrightarrow> (\<forall>c x x'. fst (inner_solver E c x) = fst (inner_solver E' c x'))"

text \<open>
  The adapter as the specification words it: the index-0 slices of a
  \<^verbatim>\<open>celer_path\<close> call on the one-element grid with identical parameters,
  monitoring and dual points forced on.
\<close>

definition celer_spec ::
  "'x env \<Rightarrow> matrix \<Rightarrow> vec \<Rightarrow> real \<Rightarrow> addr option \<Rightarrow> int \<Rightarrow> int \<Rightarrow> int \<Rightarrow> int \<Rightarrow> int \<Rightarrow> int
     \<Rightarrow> real \<Rightarrow> int \<Rightarrow> heap \<Rightarrow> 'x \<Rightarrow> error + (vec \<times> vec \<times> vec \<times> vec)" where
  "celer_spec E X y alpha w_init mi gf me p v vi tl' pr h x =
     (case returned (celer_path E
              ((celer_params alpha w_init gf me p v vi tl' pr)\<lparr>max_iter := mi\<rparr>) X y h x) of
        Inl e \<Rightarrow> Inl e
      | Inr res \<Rightarrow>
          (case item0 (result_coefs res) of Inl e \<Rightarrow> Inl e | Inr w \<Rightarrow>
           case result_thetas res of None \<Rightarrow> Inl ValueError | Some ths \<Rightarrow>
           case item0 ths of Inl e \<Rightarrow> Inl e | Inr theta \<Rightarrow>
           case result_monitor res of None \<Rightarrow> Inl ValueError | Some (gs, ts) \<Rightarrow>
           case item0 gs of Inl e \<Rightarrow> Inl e | Inr gaps \<Rightarrow>
           case item0 ts of Inl e \<Rightarrow> Inl e | Inr tms \<Rightarrow>
             Inr (w, theta, gaps, tms)))"

section \<open>One iteration in normal form\<close>

text \<open>The contents of \<^verbatim>\<open>w_init\<close> and the working-set size at iteration \<open>t\<close>.\<close>

definition init_w :: "params \<Rightarrow> locals \<Rightarrow> nat \<Rightarrow> heap \<Rightarrow> vec" where
  "init_w P L t h =
     (if t > 0 then column (n_features L) (cells h (coefs L)) (t - 1)
      else case coef_init P of Some c \<Rightarrow> cells h c | None \<Rightarrow> replicate (n_features L) 0)"

definition hint :: "params \<Rightarrow> locals \<Rightarrow> nat \<Rightarrow> heap \<Rightarrow> int \<Rightarrow> int" where
  "hint P L t h p =
     (if t > 0 then max (nnz (column (n_features L) (cells h (coefs L)) (t - 1))) 1
      else case coef_init P of Some c \<Rightarrow> max (nnz (cells h c)) p | None \<Rightarrow> p)"

definition solve_at :: "'x env \<Rightarrow> solver_call \<Rightarrow> 'x \<Rightarrow> sol \<times> vec \<times> 'x \<times> real" where
  "solve_at E c x =
     (let (t0, x1) = time_time E x; ((s, wl), x2) = inner_solver E c x1; (t1, x3) = time_time E x2
      in (s, wl, x3, t1 - t0))"

definition the_call :: "params \<Rightarrow> locals \<Rightarrow> matrix \<Rightarrow> vec \<Rightarrow> nat \<Rightarrow> 'x pstate \<Rightarrow> solver_call" where
  "the_call P L X y t st =
     mk_call P L X y (grid L ! t) (init_w P L t (store st)) (hint P L t (store st) (p0' st))"

definition called ::
  "'x env \<Rightarrow> params \<Rightarrow> locals \<Rightarrow> matrix \<Rightarrow> vec \<Rightarrow> nat \<Rightarrow> 'x pstate \<Rightarrow> 'x pstate" where
  "called E P L X y t st =
     (let c = the_call P L X y t st;
          (s, wl, x3, el) = solve_at E c (world st)
      in st\<lparr>printed := (if verbose P \<noteq> 0 then printed st @ banner t else printed st),
            store := \<lparr>cells = (cells (store st))(brk (store st) := wl), brk = Suc (brk (store st))\<rparr>,
            p0' := hint P L t (store st) (p0' st), world := x3,
            calls := calls st @ [(brk (store st), c, s)],
            all_times := (all_times st)[t := el]\<rparr>)"

definition answer :: "'x env \<Rightarrow> params \<Rightarrow> locals \<Rightarrow> matrix \<Rightarrow> vec \<Rightarrow> nat \<Rightarrow> 'x pstate \<Rightarrow> sol" where
  "answer E P L X y t st = fst (solve_at E (the_call P L X y t st) (world st))"

definition left_w :: "'x env \<Rightarrow> params \<Rightarrow> locals \<Rightarrow> matrix \<Rightarrow> vec \<Rightarrow> nat \<Rightarrow> 'x pstate \<Rightarrow> vec" where
  "left_w E P L X y t st = fst (snd (solve_at E (the_call P L X y t st) (world st)))"

section \<open>Loop invariants\<close>

definition gap_warnings :: "params \<Rightarrow> vec \<Rightarrow> (string \<times> string) list" where
  "gap_warnings P gs = concat (map (\<lambda>g. if g > tol P then [convergence_warning] else []) gs)"

definition inv_shape :: "locals \<Rightarrow> 'x pstate \<Rightarrow> nat \<Rightarrow> 'x pstate \<Rightarrow> bool" where
  "inv_shape L st0 t st \<longleftrightarrow>
     brk (store st) = brk (store st0) + t \<and> coefs L < brk (store st0) \<and>
     length (cells (store st) (coefs L)) = n_features L * length (grid L) \<and>
     length (dual_gaps st) = length (grid L) \<and> length (thetas st) = length (grid L) \<and>
     length (calls st) = t \<and>
     (\<forall>a < brk (store st0). a \<noteq> coefs L \<longrightarrow> cells (store st) a = cells (store st0) a) \<and>
     (t = 0 \<longrightarrow> p0' st = p0' st0)"

definition inv_trace ::
  "'x env \<Rightarrow> params \<Rightarrow> locals \<Rightarrow> matrix \<Rightarrow> vec \<Rightarrow> nat \<Rightarrow> 'x pstate \<Rightarrow> bool" where
  "inv_trace E P L X y t st \<longleftrightarrow>
     (\<forall>k < t. case calls st ! k of (a, c, s) \<Rightarrow>
        c = mk_call P L X y (grid L ! k) (call_w_init c) (kw_p0 (call_kwargs c)) \<and>
        (\<exists>x'. s = fst (fst (inner_solver E c x'))) \<and>
        assign_1d (n_features L) (sol_w s) =
          Inr (column (n_features L) (cells (store st) (coefs L)) k) \<and>
        assign_1d (n_samples L) (sol_theta s) = Inr (thetas st ! k) \<and>
        sol_gaps s \<noteq> [] \<and> dual_gaps st ! k = last (sol_gaps s) \<and>
        (monitor P \<longrightarrow> sol_times s \<noteq> None))"

definition inv_warm :: "params \<Rightarrow> locals \<Rightarrow> 'x pstate \<Rightarrow> nat \<Rightarrow> 'x pstate \<Rightarrow> bool" where
  "inv_warm P L st0 t st \<longleftrightarrow>
     (\<forall>k < t. case calls st ! k of (a, c, s) \<Rightarrow>
        a = brk (store st0) + k \<and>
        call_w_init c = init_w P L k (store st) \<and>
        kw_p0 (call_kwargs c) = hint P L k (store st) (p0' st0))"

definition inv_logs :: "params \<Rightarrow> nat \<Rightarrow> 'x pstate \<Rightarrow> bool" where
  "inv_logs P t st \<longleftrightarrow>
     warned st = gap_warnings P (take t (dual_gaps st)) \<and>
     gaps_per_alpha st = (if monitor P then map (\<lambda>(a, c, s). sol_gaps s) (calls st) else []) \<and>
     times_per_alpha st =
       (if monitor P then map (\<lambda>(a, c, s). the (sol_times s)) (calls st) else [])"

text \<open>What two runs are compared on: everything but the world and the wall-clock times.\<close>

definition obs ::
  "'x pstate \<Rightarrow> heap \<times> vec list \<times> vec \<times> vec list \<times> vec list \<times> int \<times>
     (addr \<times> solver_call \<times> sol) list \<times> (string \<times> string) list \<times> string list" where
  "obs st = (store st, thetas st, dual_gaps st, gaps_per_alpha st, times_per_alpha st,
             p0' st, calls st, warned st, printed st)"

section \<open>Lemmas: slices of the coefficient buffer\<close>

lemma mult_slot: "t < n \<Longrightarrow> t * nf + nf \<le> nf * (n::nat)"
proof -
  assume "t < n"
  then have "Suc t \<le> n" by simp
  then have "Suc t * nf \<le> n * nf" by (rule mult_le_mono1)
  then show ?thesis by (simp add: mult.commute)
qed

lemma take_drop_prefix:
  assumes "a + k \<le> b" "b \<le> length xs"
  shows "take k (drop a (take b xs @ r)) = take k (drop a xs)"
proof -
  have "drop a (take b xs @ r) = drop a (take b xs) @ r" using assms by simp
  moreover have "k \<le> length (drop a (take b xs))" using assms by simp
  ultimately have "take k (drop a (take b xs @ r)) = take k (drop a (take b xs))" by simp
  also have "\<dots> = take k (take (b - a) (drop a xs))" by (simp add: drop_take)
  also have "\<dots> = take k (drop a xs)" using assms by (simp add: min_def)
  finally show ?thesis .
qed

lemma drop_past_patch:
  assumes "a + length v \<le> b" "a \<le> length xs"
  shows "drop b (take a xs @ v @ drop (a + length v) xs) = drop b xs"
proof -
  have "drop b (take a xs @ v @ drop (a + length v) xs) =
        drop (b - a) (v @ drop (a + length v) xs)" using assms by simp
  also have "\<dots> = drop (b - a - length v) (drop (a + length v) xs)" using assms by simp
  also have "\<dots> = drop b xs" using assms by simp
  finally show ?thesis .
qed

lemma length_set_column:
  assumes "length v = nf" "length flat = nf * n" "t < n"
  shows "length (set_column nf flat t v) = length flat"
  using assms mult_slot[of t n nf] by (simp add: set_column_def)

lemma column_set_column_same:
  assumes "length v = nf" "length flat = nf * n" "t < n"
  shows "column nf (set_column nf flat t v) t = v"
  using assms mult_slot[of t n nf] by (simp add: set_column_def column_def)

lemma column_set_column_other:
  assumes "length v = nf" "length flat = nf * n" "t < n" "j \<noteq> t"
  shows "column nf (set_column nf flat t v) j = column nf flat j"
proof (cases "j < t")
  case True
  then have le: "j * nf + nf \<le> t * nf" using mult_slot[of j t nf] by (simp add: mult.commute)
  have tl: "t * nf \<le> length flat" using assms mult_slot[of t n nf] by simp
  show ?thesis unfolding set_column_def column_def
    by (rule take_drop_prefix[OF le tl])
next
  case False
  with assms have "t < j" by simp
  then have le: "t * nf + nf \<le> j * nf" using mult_slot[of t j nf] by (simp add: mult.commute)
  have tl: "t * nf \<le> length flat" using assms mult_slot[of t n nf] by simp
  have le': "t * nf + length v \<le> j * nf" using le assms by simp
  have d: "drop (j * nf) (take (t * nf) flat @ v @ drop (t * nf + length v) flat) = drop (j * nf) flat"
    by (rule drop_past_patch[OF le' tl])
  have e: "Suc t * nf = t * nf + length v" using assms by simp
  show ?thesis by (simp only: set_column_def column_def e d)
qed

lemma assign_1d_length: "assign_1d n v = Inr w \<Longrightarrow> length w = n"
  by (auto simp: assign_1d_def split: if_splits)

lemma assign_1d_exact: "length v = n \<Longrightarrow> assign_1d n v = Inr v"
  by (simp add: assign_1d_def)

section \<open>Lemmas: one iteration\<close>

lemma warm_start_eq:
  "warm_start P L t st =
     (brk (store st),
      st\<lparr>store := \<lparr>cells = (cells (store st))(brk (store st) := init_w P L t (store st)),
                    brk = Suc (brk (store st))\<rparr>,
         p0' := hint P L t (store st) (p0' st)\<rparr>)"
  by (cases "coef_init P") (simp_all add: warm_start_def init_w_def hint_def alloc_def Let_def)

lemma path_iter_eq:
  "path_iter E P L X y t st =
     (case record_solution P L t (answer E P L X y t st) (called E P L X y t st) of
        Inl e \<Rightarrow> Inl e
      | Inr st3 \<Rightarrow> Inr (check_gap P t st3))"
  by (cases st)
    (simp add: path_iter_def warm_start_eq called_def answer_def solve_at_def poke_def Let_def
      case_prod_beta the_call_def)

lemma called_fields:
  "store (called E P L X y t st) =
     \<lparr>cells = (cells (store st))(brk (store st) := left_w E P L X y t st), brk = Suc (brk (store st))\<rparr>"
  "calls (called E P L X y t st) =
     calls st @ [(brk (store st), the_call P L X y t st, answer E P L X y t st)]"
  "p0' (called E P L X y t st) = hint P L t (store st) (p0' st)"
  "thetas (called E P L X y t st) = thetas st"
  "dual_gaps (called E P L X y t st) = dual_gaps st"
  "warned (called E P L X y t st) = warned st"
  "gaps_per_alpha (called E P L X y t st) = gaps_per_alpha st"
  "times_per_alpha (called E P L X y t st) = times_per_alpha st"
  "printed (called E P L X y t st) = (if verbose P \<noteq> 0 then printed st @ banner t else printed st)"
  by (simp_all add: called_def left_w_def answer_def Let_def case_prod_beta)

lemma path_iter_step:
  assumes "path_iter E P L X y t st = Inr st'"
  shows "sol_gaps (answer E P L X y t st) \<noteq> []"
    and "monitor P \<longrightarrow> sol_times (answer E P L X y t st) \<noteq> None"
    and "\<exists>wcol. assign_1d (n_features L) (sol_w (answer E P L X y t st)) = Inr wcol \<and>
           cells (store st') =
             ((cells (store st))(brk (store st) := left_w E P L X y t st))
               (coefs L := set_column (n_features L)
                  (((cells (store st))(brk (store st) := left_w E P L X y t st)) (coefs L)) t wcol)"
    and "brk (store st') = Suc (brk (store st))"
    and "calls st' = calls st @ [(brk (store st), the_call P L X y t st, answer E P L X y t st)]"
    and "dual_gaps st' = (dual_gaps st)[t := last (sol_gaps (answer E P L X y t st))]"
    and "\<exists>row. assign_1d (n_samples L) (sol_theta (answer E P L X y t st)) = Inr row \<and>
           thetas st' = (thetas st)[t := row]"
    and "warned st' = warned st @
           (if (dual_gaps st)[t := last (sol_gaps (answer E P L X y t st))] ! t > tol P
            then [convergence_warning] else [])"
    and "gaps_per_alpha st' =
           (if monitor P then gaps_per_alpha st @ [sol_gaps (answer E P L X y t st)]
            else gaps_per_alpha st)"
    and "times_per_alpha st' =
           (if monitor P then times_per_alpha st @ [the (sol_times (answer E P L X y t st))]
            else times_per_alpha st)"
    and "p0' st' = hint P L t (store st) (p0' st)"
  using assms
  by (auto simp: path_iter_eq record_solution_def check_gap_def called_fields last_entry_def
      poke_def Let_def split: sum.splits if_splits option.splits)

section \<open>Lemmas: the loop\<close>

lemma path_loop_inv:
  assumes "path_loop E P L X y [i..<n] st = Inr st'"
    and "Inv i st"
    and "\<And>t s s'. i \<le> t \<Longrightarrow> t < n \<Longrightarrow> Inv t s \<Longrightarrow> path_iter E P L X y t s = Inr s' \<Longrightarrow> Inv (Suc t) s'"
    and "i \<le> n"
  shows "Inv n st'"
  using assms
proof (induction "n - i" arbitrary: i st)
  case 0
  then show ?case by simp
next
  case (Suc k)
  then have lt: "i < n" by simp
  then have u: "[i..<n] = i # [Suc i..<n]" by (simp add: upt_conv_Cons)
  from Suc.prems(1) u obtain s1 where s1: "path_iter E P L X y i st = Inr s1"
    and rest: "path_loop E P L X y [Suc i..<n] s1 = Inr st'"
    by (auto split: sum.splits)
  have i1: "Inv (Suc i) s1" using Suc.prems(3)[OF _ lt Suc.prems(2) s1] by simp
  have "k = n - Suc i" using Suc.hyps(2) by simp
  then show ?case
    using Suc.hyps(1)[of "Suc i" s1] rest i1 Suc.prems(3) lt by simp
qed

lemma coefs_after_step:
  assumes sh: "inv_shape L st0 t st" and it: "path_iter E P L X y t st = Inr st'"
  obtains wcol where "assign_1d (n_features L) (sol_w (answer E P L X y t st)) = Inr wcol"
    and "length wcol = n_features L"
    and "cells (store st') (coefs L) =
           set_column (n_features L) (cells (store st) (coefs L)) t wcol"
    and "\<And>a. a \<noteq> coefs L \<Longrightarrow> a \<noteq> brk (store st) \<Longrightarrow> cells (store st') a = cells (store st) a"
proof -
  from path_iter_step(3)[OF it] obtain wcol where
    w: "assign_1d (n_features L) (sol_w (answer E P L X y t st)) = Inr wcol" and
    c: "cells (store st') =
          ((cells (store st))(brk (store st) := left_w E P L X y t st))
            (coefs L := set_column (n_features L)
               (((cells (store st))(brk (store st) := left_w E P L X y t st)) (coefs L)) t wcol)"
    by blast
  have ne: "brk (store st) \<noteq> coefs L" using sh by (simp add: inv_shape_def)
  have "cells (store st') (coefs L) = set_column (n_features L) (cells (store st) (coefs L)) t wcol"
    using c ne by simp
  moreover have "\<And>a. a \<noteq> coefs L \<Longrightarrow> a \<noteq> brk (store st) \<Longrightarrow> cells (store st') a = cells (store st) a"
    using c by simp
  ultimately show ?thesis using that w assign_1d_length[OF w] by blast
qed

lemma inv_shape_step:
  assumes sh: "inv_shape L st0 t st" and lt: "t < length (grid L)"
    and it: "path_iter E P L X y t st = Inr st'"
  shows "inv_shape L st0 (Suc t) st'"
proof -
  from coefs_after_step[OF sh it] obtain wcol where
    len: "length wcol = n_features L" and
    cf: "cells (store st') (coefs L) = set_column (n_features L) (cells (store st) (coefs L)) t wcol" and
    fr: "\<And>a. a \<noteq> coefs L \<Longrightarrow> a \<noteq> brk (store st) \<Longrightarrow> cells (store st') a = cells (store st) a"
    by blast
  have l0: "length (cells (store st) (coefs L)) = n_features L * length (grid L)"
    using sh by (simp add: inv_shape_def)
  have l1: "length (cells (store st') (coefs L)) = n_features L * length (grid L)"
    using length_set_column[OF len l0 lt] cf l0 by simp
  from path_iter_step(7)[OF it] obtain row where th: "thetas st' = (thetas st)[t := row]" by blast
  have frame: "\<forall>a < brk (store st0). a \<noteq> coefs L \<longrightarrow> cells (store st') a = cells (store st0) a"
  proof (intro allI impI)
    fix a assume a: "a < brk (store st0)" "a \<noteq> coefs L"
    then have "a \<noteq> brk (store st)" using sh by (simp add: inv_shape_def)
    then have "cells (store st') a = cells (store st) a" using fr a by simp
    then show "cells (store st') a = cells (store st0) a" using sh a by (simp add: inv_shape_def)
  qed
  show ?thesis
    using sh l1 th frame path_iter_step(4,5,6)[OF it]
    by (simp add: inv_shape_def)
qed

lemma step_columns:
  assumes sh: "inv_shape L st0 t st" and lt: "t < length (grid L)"
    and it: "path_iter E P L X y t st = Inr st'"
  shows "assign_1d (n_features L) (sol_w (answer E P L X y t st)) =
           Inr (column (n_features L) (cells (store st') (coefs L)) t)"
    and "\<And>k. k < length (grid L) \<Longrightarrow> k \<noteq> t \<Longrightarrow>
           column (n_features L) (cells (store st') (coefs L)) k =
           column (n_features L) (cells (store st) (coefs L)) k"
proof -
  from coefs_after_step[OF sh it] obtain wcol where
    w: "assign_1d (n_features L) (sol_w (answer E P L X y t st)) = Inr wcol" and
    len: "length wcol = n_features L" and
    cf: "cells (store st') (coefs L) = set_column (n_features L) (cells (store st) (coefs L)) t wcol"
    by blast
  have l0: "length (cells (store st) (coefs L)) = n_features L * length (grid L)"
    using sh by (simp add: inv_shape_def)
  show "assign_1d (n_features L) (sol_w (answer E P L X y t st)) =
           Inr (column (n_features L) (cells (store st') (coefs L)) t)"
    using w cf column_set_column_same[OF len l0 lt] by simp
  show "\<And>k. k < length (grid L) \<Longrightarrow> k \<noteq> t \<Longrightarrow>
           column (n_features L) (cells (store st') (coefs L)) k =
           column (n_features L) (cells (store st) (coefs L)) k"
    using cf column_set_column_other[OF len l0 lt] by simp
qed


lemma mk_call_fields:
  "call_w_init (mk_call P L X y alpha w p) = w"
  "kw_p0 (call_kwargs (mk_call P L X y alpha w p)) = p"
  "call_alpha (mk_call P L X y alpha w p) = alpha"
  "call_kwargs (mk_call P L X y alpha w p) = mk_kwargs P p"
  "kw_p0 (mk_kwargs P p) = p"
  by (simp_all add: mk_call_def mk_kwargs_def split: matrix.splits)

lemma inv_trace_step:
  assumes sh: "inv_shape L st0 t st" and tr: "inv_trace E P L X y t st"
    and lt: "t < length (grid L)"
    and it: "path_iter E P L X y t st = Inr st'"
  shows "inv_trace E P L X y (Suc t) st'"
  unfolding inv_trace_def
proof (intro allI impI)
  fix k assume k: "k < Suc t"
  note cs = path_iter_step(5)[OF it]
  have lc: "length (calls st) = t" using sh by (simp add: inv_shape_def)
  have ldg: "length (dual_gaps st) = length (grid L)" and lth: "length (thetas st) = length (grid L)"
    using sh by (simp_all add: inv_shape_def)
  from path_iter_step(7)[OF it] obtain row where
    row: "assign_1d (n_samples L) (sol_theta (answer E P L X y t st)) = Inr row"
    and th: "thetas st' = (thetas st)[t := row]" by blast
  note dg = path_iter_step(6)[OF it]
  show "case calls st' ! k of (a, c, s) \<Rightarrow>
        c = mk_call P L X y (grid L ! k) (call_w_init c) (kw_p0 (call_kwargs c)) \<and>
        (\<exists>x'. s = fst (fst (inner_solver E c x'))) \<and>
        assign_1d (n_features L) (sol_w s) =
          Inr (column (n_features L) (cells (store st') (coefs L)) k) \<and>
        assign_1d (n_samples L) (sol_theta s) = Inr (thetas st' ! k) \<and>
        sol_gaps s \<noteq> [] \<and> dual_gaps st' ! k = last (sol_gaps s) \<and>
        (monitor P \<longrightarrow> sol_times s \<noteq> None)"
  proof (cases "k < t")
    case True
    then have old: "calls st' ! k = calls st ! k" using cs lc by (simp add: nth_append)
    have kn: "k < length (grid L)" "k \<noteq> t" using True lt by simp_all
    from tr True have "case calls st ! k of (a, c, s) \<Rightarrow>
        c = mk_call P L X y (grid L ! k) (call_w_init c) (kw_p0 (call_kwargs c)) \<and>
        (\<exists>x'. s = fst (fst (inner_solver E c x'))) \<and>
        assign_1d (n_features L) (sol_w s) =
          Inr (column (n_features L) (cells (store st) (coefs L)) k) \<and>
        assign_1d (n_samples L) (sol_theta s) = Inr (thetas st ! k) \<and>
        sol_gaps s \<noteq> [] \<and> dual_gaps st ! k = last (sol_gaps s) \<and>
        (monitor P \<longrightarrow> sol_times s \<noteq> None)"
      by (simp add: inv_trace_def)
    then show ?thesis
      using old step_columns(2)[OF sh lt it kn] th dg kn
      by (simp add: case_prod_beta)
  next
    case False
    then have kt: "k = t" using k by simp
    have new: "calls st' ! k = (brk (store st), the_call P L X y t st, answer E P L X y t st)"
      using cs lc kt by (simp add: nth_append)
    have ans: "\<exists>x'. answer E P L X y t st = fst (fst (inner_solver E (the_call P L X y t st) x'))"
      by (auto simp: answer_def solve_at_def case_prod_beta Let_def)
    show ?thesis
      using new kt step_columns(1)[OF sh lt it] ans
        row th dg ldg lth lt path_iter_step(1,2)[OF it]
      by (simp add: the_call_def mk_call_fields)
  qed
qed


lemma gap_warnings_snoc:
  "gap_warnings P (gs @ [g]) = gap_warnings P gs @ (if g > tol P then [convergence_warning] else [])"
  by (simp add: gap_warnings_def)


lemma inv_logs_step:
  assumes sh: "inv_shape L st0 t st" and lg: "inv_logs P t st"
    and lt: "t < length (grid L)"
    and it: "path_iter E P L X y t st = Inr st'"
  shows "inv_logs P (Suc t) st'"
proof -
  let ?g = "last (sol_gaps (answer E P L X y t st))"
  have ldg: "length (dual_gaps st) = length (grid L)" using sh by (simp add: inv_shape_def)
  have dg: "dual_gaps st' = (dual_gaps st)[t := ?g]" by (rule path_iter_step(6)[OF it])
  have tk: "take (Suc t) (dual_gaps st') = take t (dual_gaps st) @ [?g]"
    using dg ldg lt by (simp add: take_Suc_conv_app_nth)
  have nt: "(dual_gaps st)[t := ?g] ! t = ?g" using ldg lt by simp
  have w: "warned st' = gap_warnings P (take (Suc t) (dual_gaps st'))"
    using path_iter_step(8)[OF it] lg nt tk by (simp add: inv_logs_def gap_warnings_snoc)
  show ?thesis
    using w lg path_iter_step(5,9,10)[OF it] by (simp add: inv_logs_def)
qed

lemma path_iter_total:
  assumes "solver_contract E P (n_samples L) (n_features L)"
  shows "\<exists>st'. path_iter E P L X y t st = Inr st'"
proof -
  let ?c = "the_call P L X y t st"
  let ?x = "snd (time_time E (world st))"
  have a: "answer E P L X y t st = fst (fst (inner_solver E ?c ?x))"
    by (simp add: answer_def solve_at_def case_prod_beta Let_def)
  from assms have
    "length (sol_w (fst (fst (inner_solver E ?c ?x)))) = n_features L"
    "length (sol_theta (fst (fst (inner_solver E ?c ?x)))) = n_samples L"
    "sol_gaps (fst (fst (inner_solver E ?c ?x))) \<noteq> []"
    "monitor P \<longrightarrow> sol_times (fst (fst (inner_solver E ?c ?x))) \<noteq> None"
    by (simp_all add: solver_contract_def)
  then show ?thesis
    by (auto simp: path_iter_eq record_solution_def a last_entry_def assign_1d_def Let_def
        split: option.splits)
qed

lemma path_loop_total:
  assumes "solver_contract E P (n_samples L) (n_features L)"
  shows "\<exists>st'. path_loop E P L X y ts st = Inr st'"
proof (induction ts arbitrary: st)
  case Nil
  show ?case by simp
next
  case (Cons t ts)
  from path_iter_total[OF assms] obtain s1 where "path_iter E P L X y t st = Inr s1" by blast
  with Cons[of s1] show ?case by simp
qed

section \<open>Lemmas: a whole run\<close>

lemma celer_path_run:
  assumes "celer_path E P X y h x = Inr (res, L, st)"
  shows "fst (shape X) \<noteq> 0" and "snd (shape X) \<noteq> 0" and "y \<noteq> []"
    and "sparse_scaling P (snd (shape X)) = Inr (X_sparse_scaling L)"
    and "alpha_grid P X y = Inr (grid L)"
    and "n_samples L = fst (shape X)" and "n_features L = snd (shape X)"
    and "data_is_sparse L = issparse X" and "coefs L = brk h"
    and "path_loop E P L X y [0..<length (grid L)]
           (init_state P L (snd (alloc h (replicate (snd (shape X) * length (grid L)) 0))) x) = Inr st"
    and "res = assemble P L st"
  using assms
  by (auto simp: celer_path_def alloc_def Let_def split: if_splits sum.splits)

lemma celer_path_total:
  assumes "solver_contract E P (fst (shape X)) (snd (shape X))"
    and "fst (shape X) \<noteq> 0" and "snd (shape X) \<noteq> 0" and "y \<noteq> []"
    and "sparse_scaling P (snd (shape X)) = Inr sc"
    and "alpha_grid P X y = Inr g"
  shows "\<exists>res L st. celer_path E P X y h x = Inr (res, L, st)"
proof -
  let ?L = "\<lparr>n_samples = fst (shape X), n_features = snd (shape X),
             data_is_sparse = issparse X, X_sparse_scaling = sc, grid = g, coefs = brk h\<rparr>"
  have c: "solver_contract E P (n_samples ?L) (n_features ?L)" using assms(1) by simp
  from path_loop_total[OF c] obtain st where
    "path_loop E P ?L X y [0..<length g]
       (init_state P ?L (snd (alloc h (replicate (snd (shape X) * length g) 0))) x) = Inr st"
    by blast
  then show ?thesis using assms(2-6)
    by (simp add: celer_path_def alloc_def Let_def)
qed

lemma init_invariants:
  assumes "coefs L = brk h"
  shows "inv_shape L (init_state P L (snd (alloc h (replicate (n_features L * length (grid L)) 0))) x) 0
           (init_state P L (snd (alloc h (replicate (n_features L * length (grid L)) 0))) x)"
    and "inv_trace E P L X y 0
           (init_state P L (snd (alloc h (replicate (n_features L * length (grid L)) 0))) x)"
    and "inv_warm P L (init_state P L (snd (alloc h (replicate (n_features L * length (grid L)) 0))) x) 0
           (init_state P L (snd (alloc h (replicate (n_features L * length (grid L)) 0))) x)"
    and "inv_logs P 0 (init_state P L (snd (alloc h (replicate (n_features L * length (grid L)) 0))) x)"
  using assms
  by (simp_all add: inv_shape_def inv_trace_def inv_warm_def inv_logs_def init_state_def alloc_def
      gap_warnings_def)

lemma run_shape_logs:
  assumes run: "celer_path E P X y h x = Inr (res, L, st)"
  shows "inv_shape L (init_state P L (snd (alloc h (replicate (n_features L * length (grid L)) 0))) x)
           (length (grid L)) st"
    and "inv_logs P (length (grid L)) st"
    and "inv_trace E P L X y (length (grid L)) st"
proof -
  let ?st0 = "init_state P L (snd (alloc h (replicate (n_features L * length (grid L)) 0))) x"
  define I where
    "I = (\<lambda>t s. inv_shape L ?st0 t s \<and> inv_logs P t s \<and> inv_trace E P L X y t s)"
  have lp: "path_loop E P L X y [0..<length (grid L)] ?st0 = Inr st"
    using celer_path_run(7,10)[OF run] by simp
  have cb: "coefs L = brk h" by (rule celer_path_run(9)[OF run])
  have i0: "I 0 ?st0"
    unfolding I_def
    by (intro conjI init_invariants(1)[OF cb] init_invariants(2)[OF cb] init_invariants(4)[OF cb])
  have "I (length (grid L)) st"
  proof (rule path_loop_inv[where Inv = I, OF lp i0])
    fix t s s'
    assume lt: "t < length (grid L)" and i: "I t s" and it: "path_iter E P L X y t s = Inr s'"
    have sh: "inv_shape L ?st0 t s" and lg: "inv_logs P t s" and tr: "inv_trace E P L X y t s"
      using i by (simp_all add: I_def)
    show "I (Suc t) s'"
      unfolding I_def
      by (intro conjI inv_shape_step[OF sh lt it] inv_logs_step[OF sh lg lt it]
          inv_trace_step[OF sh tr lt it])
  qed simp
  then show "inv_shape L ?st0 (length (grid L)) st" and "inv_logs P (length (grid L)) st"
    and "inv_trace E P L X y (length (grid L)) st"
    by (simp_all add: I_def)
qed


lemma assemble_fields:
  "result_alphas (assemble P L st) = grid L"
  "result_coefs (assemble P L st) =
     columns (n_features L) (length (grid L)) (cells (store st) (coefs L))"
  "result_gaps (assemble P L st) = dual_gaps st"
  "result_thetas (assemble P L st) = (if return_thetas P then Some (thetas st) else None)"
  "result_monitor (assemble P L st) =
     (if return_thetas P \<and> monitor P then Some (gaps_per_alpha st, times_per_alpha st) else None)"
  by (simp_all add: assemble_def Let_def)

lemma columns_nth: "t < n \<Longrightarrow> columns nf n flat ! t = column nf flat t"
  by (simp add: columns_def)

lemma length_columns: "length (columns nf n flat) = n"
  by (simp add: columns_def)

lemma run_sizes:
  assumes run: "celer_path E P X y h x = Inr (res, L, st)"
  shows "length (result_alphas res) = length (grid L)"
    and "length (result_coefs res) = length (grid L)"
    and "length (result_gaps res) = length (grid L)"
    and "length (thetas st) = length (grid L)"
    and "length (calls st) = length (grid L)"
    and "monitor P \<Longrightarrow> length (gaps_per_alpha st) = length (grid L)"
    and "monitor P \<Longrightarrow> length (times_per_alpha st) = length (grid L)"
  using run_shape_logs[OF run] celer_path_run(11)[OF run]
  by (simp_all add: assemble_fields length_columns inv_shape_def inv_logs_def)


section \<open>Lemmas: the entries of the trace\<close>

lemma run_entry:
  assumes run: "celer_path E P X y h x = Inr (res, L, st)"
    and t: "t < length (grid L)" and c: "calls st ! t = (a, c, s)"
  shows "c = mk_call P L X y (grid L ! t) (call_w_init c) (kw_p0 (call_kwargs c))"
    and "\<exists>x'. s = fst (fst (inner_solver E c x'))"
    and "assign_1d (n_features L) (sol_w s) = Inr (result_coefs res ! t)"
    and "assign_1d (n_samples L) (sol_theta s) = Inr (thetas st ! t)"
    and "sol_gaps s \<noteq> []"
    and "result_gaps res ! t = last (sol_gaps s)"
    and "monitor P \<longrightarrow> sol_times s \<noteq> None"
proof -
  have all: "\<forall>k < length (grid L). case calls st ! k of (a, c, s) \<Rightarrow>
        c = mk_call P L X y (grid L ! k) (call_w_init c) (kw_p0 (call_kwargs c)) \<and>
        (\<exists>x'. s = fst (fst (inner_solver E c x'))) \<and>
        assign_1d (n_features L) (sol_w s) =
          Inr (column (n_features L) (cells (store st) (coefs L)) k) \<and>
        assign_1d (n_samples L) (sol_theta s) = Inr (thetas st ! k) \<and>
        sol_gaps s \<noteq> [] \<and> dual_gaps st ! k = last (sol_gaps s) \<and>
        (monitor P \<longrightarrow> sol_times s \<noteq> None)"
    using run_shape_logs(3)[OF run] unfolding inv_trace_def .
  note e0 = all[rule_format, OF t, unfolded c prod.case]
  have e:
    "c = mk_call P L X y (grid L ! t) (call_w_init c) (kw_p0 (call_kwargs c))"
    "\<exists>x'. s = fst (fst (inner_solver E c x'))"
    "assign_1d (n_features L) (sol_w s) =
          Inr (column (n_features L) (cells (store st) (coefs L)) t)"
    "assign_1d (n_samples L) (sol_theta s) = Inr (thetas st ! t)"
    "sol_gaps s \<noteq> []" "dual_gaps st ! t = last (sol_gaps s)"
    "monitor P \<longrightarrow> sol_times s \<noteq> None"
    using e0 by blast+
  note r = celer_path_run(11)[OF run]
  show "c = mk_call P L X y (grid L ! t) (call_w_init c) (kw_p0 (call_kwargs c))" by (rule e(1))
  show "\<exists>x'. s = fst (fst (inner_solver E c x'))" by (rule e(2))
  show "assign_1d (n_features L) (sol_w s) = Inr (result_coefs res ! t)"
    using e(3) r t by (simp add: assemble_fields columns_nth)
  show "assign_1d (n_samples L) (sol_theta s) = Inr (thetas st ! t)" by (rule e(4))
  show "sol_gaps s \<noteq> []" by (rule e(5))
  show "result_gaps res ! t = last (sol_gaps s)" using e(6) r by (simp add: assemble_fields)
  show "monitor P \<longrightarrow> sol_times s \<noteq> None" by (rule e(7))
qed



section \<open>Lemmas: grid, scaling vector and unused parameters\<close>

lemma call_scaling_mk_call:
  "data_is_sparse L = issparse X \<Longrightarrow>
   call_scaling (mk_call P L X y alpha w p) =
     (if issparse X then Some (X_sparse_scaling L) else None)"
  by (cases X) (simp_all add: mk_call_def)

lemma sparse_scaling_cases:
  "X_offset P = None \<Longrightarrow> sparse_scaling P nf = Inr (replicate nf 0)"
  "X_offset P = Some off \<Longrightarrow> X_scale P = Some sc \<Longrightarrow> sparse_scaling P nf = np_divide off sc"
  by (simp_all add: sparse_scaling_def)

lemma np_divide_same_length:
  "np_divide a b = Inr v \<Longrightarrow> length a = length b \<Longrightarrow> v = map2 (/) a b"
  by (auto simp: np_divide_def split: if_splits)

lemma run_call_alphas:
  assumes run: "celer_path E P X y h x = Inr (res, L, st)"
  shows "map (\<lambda>(a, c, s). call_alpha c) (calls st) = grid L"
proof (rule nth_equalityI)
  show "length (map (\<lambda>(a, c, s). call_alpha c) (calls st)) = length (grid L)"
    using run_sizes(5)[OF run] by simp
next
  fix t assume "t < length (map (\<lambda>(a, c, s). call_alpha c) (calls st))"
  then have t: "t < length (grid L)" and tc: "t < length (calls st)"
    using run_sizes(5)[OF run] by simp_all
  obtain a c s where cs: "calls st ! t = (a, c, s)" by (cases "calls st ! t")
  have "call_alpha (mk_call P L X y (grid L ! t) (call_w_init c) (kw_p0 (call_kwargs c))) =
        grid L ! t" by (rule mk_call_fields(3))
  then have "call_alpha c = grid L ! t" using run_entry(1)[OF run t cs] by simp
  then show "map (\<lambda>(a, c, s). call_alpha c) (calls st) ! t = grid L ! t"
    using tc cs by simp
qed

lemma rev_sort_descending:
  fixes al :: "real list"
  shows "mset (rev (sort al)) = mset al"
    and "sorted_wrt (\<ge>) (rev (sort al))"
    and "distinct al \<Longrightarrow> sorted_wrt (>) (rev (sort al))"
proof -
  show "mset (rev (sort al)) = mset al" by simp
  have "sorted_wrt (\<le>) (sort al)" using sorted_sort[of al] by simp
  then show "sorted_wrt (\<ge>) (rev (sort al))" by (simp add: sorted_wrt_rev)
  assume "distinct al"
  then have "distinct (sort al)" by simp
  then have "sorted_wrt (<) (sort al)" using sorted_sort[of al] by (simp add: strict_sorted_iff)
  then show "sorted_wrt (>) (rev (sort al))" by (simp add: sorted_wrt_rev)
qed

lemma n_alphas_unused:
  "mk_kwargs (P\<lparr>n_alphas := k\<rparr>) = mk_kwargs P"
  "init_w (P\<lparr>n_alphas := k\<rparr>) = init_w P"
  "hint (P\<lparr>n_alphas := k\<rparr>) = hint P"
  "check_gap (P\<lparr>n_alphas := k\<rparr>) = check_gap P"
  "record_solution (P\<lparr>n_alphas := k\<rparr>) = record_solution P"
  "sparse_scaling (P\<lparr>n_alphas := k\<rparr>) = sparse_scaling P"
  "init_state (P\<lparr>n_alphas := k\<rparr>) = init_state P"
  "assemble (P\<lparr>n_alphas := k\<rparr>) = assemble P"
  by (intro ext, simp add: mk_kwargs_def init_w_def hint_def check_gap_def record_solution_def
        sparse_scaling_def init_state_def assemble_def
      cong: if_cong option.case_cong sum.case_cong)+

lemma mk_call_n_alphas: "mk_call (P\<lparr>n_alphas := k\<rparr>) = mk_call P"
  by (intro ext) (simp only: mk_call_def n_alphas_unused)

lemma path_iter_n_alphas:
  "path_iter E (P\<lparr>n_alphas := k\<rparr>) L X y t st = path_iter E P L X y t st"
proof -
  have c: "the_call (P\<lparr>n_alphas := k\<rparr>) L X y t st = the_call P L X y t st"
    by (simp only: the_call_def mk_call_n_alphas n_alphas_unused)
  have a: "answer E (P\<lparr>n_alphas := k\<rparr>) L X y t st = answer E P L X y t st"
    by (simp only: answer_def c)
  have d: "called E (P\<lparr>n_alphas := k\<rparr>) L X y t st = called E P L X y t st"
    by (simp add: called_def c n_alphas_unused)
  show ?thesis by (simp only: path_iter_eq a d n_alphas_unused)
qed

lemma path_loop_n_alphas:
  "path_loop E (P\<lparr>n_alphas := k\<rparr>) L X y ts st = path_loop E P L X y ts st"
  by (induction ts arbitrary: st) (simp_all add: path_iter_n_alphas cong: sum.case_cong)

lemma celer_path_n_alphas:
  assumes "alphas P = Some al"
  shows "celer_path E (P\<lparr>n_alphas := k\<rparr>) X y h x = celer_path E P X y h x"
proof -
  have g: "alpha_grid (P\<lparr>n_alphas := k\<rparr>) X y = alpha_grid P X y"
    using assms by (simp add: alpha_grid_def)
  show ?thesis
    by (simp only: celer_path_def g n_alphas_unused path_loop_n_alphas)
qed

section \<open>Worked examples\<close>

lemmas run_defs =
  celer_path_def sparse_scaling_def alpha_grid_def alloc_def init_state_def path_iter_def
  warm_start_def mk_call_def mk_kwargs_def record_solution_def last_entry_def assign_1d_def
  poke_def set_column_def column_def columns_def check_gap_def assemble_def nnz_def
  returned_def trace_of_def np_divide_def

lemmas probe_defs =
  probe_env_def probe_solver_def probe_params_def probe_X_def probe_Xs_def probe_y_def
  probe_heap_def

lemma probe_contract: "solver_contract (probe_env ns nf) P ns nf"
  by (simp add: solver_contract_def probe_env_def probe_solver_def)

lemma probe_same_solver: "same_solver (probe_env ns nf) (probe_env ns nf)"
  by (simp add: same_solver_def probe_env_def probe_solver_def)

lemma probe_inputs:
  "fst (shape probe_X) = 3" "snd (shape probe_X) = 2" "probe_y \<noteq> []"
  "fst (shape probe_Xs) = 3" "snd (shape probe_Xs) = 2"
  "sparse_scaling probe_params 2 = Inr [0, 0]"
  "alpha_grid probe_params X y = Inr [1, 1 / 10]"
  "coef_init probe_params = None"
  by (simp_all add: probe_defs sparse_scaling_def alpha_grid_def numeral_2_eq_2)

lemma probe_run:
  "returned (celer_path (probe_env 3 2) probe_params probe_X probe_y probe_heap 0) =
     Inr (Base [1, 1 / 10] [[1, 1], [1 / 10, 1 / 10]] [1 / 20, 1 / 200])"
  by (simp add: run_defs probe_defs upt_rec Let_def)

lemma replicate_small: "replicate 2 x = [x, x]" "replicate 3 x = [x, x, x]"
  by (simp_all add: numeral_2_eq_2 numeral_3_eq_3)

lemma probe_trace:
  "trace_of (celer_path (probe_env 3 2) probe_params probe_X probe_y probe_heap 0) =
     [(1, Celer_dense probe_X probe_y 1 [0, 0] (mk_kwargs probe_params 10), probe_sol 1),
      (2, Celer_dense probe_X probe_y (1 / 10) [1, 1] (mk_kwargs probe_params 2),
       probe_sol (1 / 10))]"
  by (simp add: run_defs probe_defs probe_sol_def replicate_small upt_rec Let_def)

lemma probe_trace_init:
  "trace_of (celer_path (probe_env 3 2) (probe_params\<lparr>coef_init := Some 0\<rparr>)
      probe_X probe_y probe_heap1 0) =
     [(2, Celer_dense probe_X probe_y 1 [0, 5] (mk_kwargs probe_params 10), probe_sol 1),
      (3, Celer_dense probe_X probe_y (1 / 10) [1, 1] (mk_kwargs probe_params 2),
       probe_sol (1 / 10))]"
  by (simp add: run_defs probe_defs probe_heap1_def probe_sol_def replicate_small upt_rec Let_def)


lemma Inr_same: "f = Inr a \<Longrightarrow> f = Inr b \<Longrightarrow> a = b"
  by simp

lemma returned_InrE:
  assumes "returned r = Inr res"
  obtains L st where "r = Inr (res, L, st)"
  using assms by (auto simp: returned_def split: sum.splits)

lemma trace_of_Inr: "trace_of (Inr (res, L, st)) = calls st"
  by (simp add: trace_of_def)

section \<open>The claims\<close>



text \<open>
  C7. For the grid point \<open>t\<close> of a run, let \<open>s\<close> be the tuple the inner solver returned
  for that call. The gap trajectory is not empty, and the gap recorded for \<open>t\<close> is its
  last entry. The coefficient column and the dual-point row stored for \<open>t\<close> are what
  numpy's assignment makes of \<open>sol_w s\<close> and \<open>sol_theta s\<close>; they are exactly these
  components when they have the lengths \<open>n_features\<close> and \<open>n_samples\<close>. The stored
  rows are the dual points returned when \<^verbatim>\<open>return_thetas\<close> is set.
\<close>

theorem solver_tuple_is_stored:
  assumes "celer_path E P X y h x = Inr (res, L, st)"
    and "t < length (grid L)"
    and "calls st ! t = (a, c, s)"
  shows "(\<exists>x'. s = fst (fst (inner_solver E c x'))) \<and>
         call_alpha c = result_alphas res ! t \<and>
         sol_gaps s \<noteq> [] \<and> result_gaps res ! t = last (sol_gaps s) \<and>
         assign_1d (n_features L) (sol_w s) = Inr (result_coefs res ! t) \<and>
         assign_1d (n_samples L) (sol_theta s) = Inr (thetas st ! t) \<and>
         (length (sol_w s) = n_features L \<longrightarrow> result_coefs res ! t = sol_w s) \<and>
         (length (sol_theta s) = n_samples L \<longrightarrow> thetas st ! t = sol_theta s) \<and>
         (return_thetas P \<longrightarrow> result_thetas res = Some (thetas st))"
proof -
  note e = run_entry[OF assms]
  have al: "call_alpha c = grid L ! t"
  proof -
    have "call_alpha (mk_call P L X y (grid L ! t) (call_w_init c) (kw_p0 (call_kwargs c))) =
          grid L ! t" by (rule mk_call_fields(3))
    then show ?thesis using e(1) by simp
  qed
  have r: "res = assemble P L st" by (rule celer_path_run(11)[OF assms(1)])
  have w: "length (sol_w s) = n_features L \<longrightarrow> result_coefs res ! t = sol_w s"
    using e(3) by (auto simp: assign_1d_exact)
  have th: "length (sol_theta s) = n_samples L \<longrightarrow> thetas st ! t = sol_theta s"
    using e(4) by (auto simp: assign_1d_exact)
  show ?thesis
    using e(2,3,4,5,6) al w th r by (simp add: assemble_fields)
qed

theorem solver_tuple_is_stored_witness:
  "\<exists>res L st. celer_path (probe_env 3 2) probe_params probe_X probe_y probe_heap 0 =
       Inr (res, L, st) \<and>
     calls st ! 1 =
       (2, Celer_dense probe_X probe_y (1 / 10) [1, 1] (mk_kwargs probe_params 2),
        probe_sol (1 / 10)) \<and>
     result_gaps res ! 1 = 1 / 200 \<and>
     result_coefs res ! 1 = [1 / 10, 1 / 10] \<and>
     thetas st ! 1 = [0, 0, 0]"
proof -
  from probe_run obtain L st where
    run: "celer_path (probe_env 3 2) probe_params probe_X probe_y probe_heap 0 =
            Inr (Base [1, 1 / 10] [[1, 1], [1 / 10, 1 / 10]] [1 / 20, 1 / 200], L, st)"
    by (rule returned_InrE)
  have cs: "calls st ! 1 =
       (2, Celer_dense probe_X probe_y (1 / 10) [1, 1] (mk_kwargs probe_params 2),
        probe_sol (1 / 10))"
    using probe_trace run by (simp add: trace_of_Inr)
  have g: "grid L = [1, 1 / 10]"
    using celer_path_run(5)[OF run] probe_inputs(7)[of probe_X probe_y] by simp
  have t: "1 < length (grid L)" using g by simp
  have nf: "n_features L = 2" and ns: "n_samples L = 3"
    using celer_path_run(6,7)[OF run] by (simp_all add: probe_inputs)
  from solver_tuple_is_stored[OF run t cs] nf ns
  show ?thesis using run cs by (auto simp: probe_sol_def)
qed



text \<open>
  C8, as the claim states it, fails: on a dense matrix \<^verbatim>\<open>celer_dense\<close> is called, and
  it is passed no scaling vector, whether or not the caller supplied an offset and a
  scale. Here the caller supplies both and neither of the two calls carries the vector.
\<close>

theorem dense_calls_carry_no_scaling:
  "map (\<lambda>(a, c, s). call_scaling c)
     (trace_of (celer_path (probe_env 3 2)
        (probe_params\<lparr>X_offset := Some [1, 1], X_scale := Some [2, 2]\<rparr>)
        probe_X probe_y probe_heap 0)) = [None, None]"
  by (simp add: run_defs probe_defs replicate_small upt_rec Let_def)

text \<open>
  C8, amended. When the matrix is sparse, every call of the inner solver is passed the
  one vector \<open>X_sparse_scaling\<close>; when it is dense, no call is passed a scaling vector.
  The vector is \<open>n_features\<close> zeros when no offset is supplied, and the elementwise
  quotient offset / scale when an offset and a scale of the same length are supplied.
\<close>

theorem scaling_vector_passed_when_sparse:
  assumes "celer_path E P X y h x = Inr (res, L, st)"
    and "t < length (grid L)"
    and "calls st ! t = (a, c, s)"
  shows "call_scaling c = (if issparse X then Some (X_sparse_scaling L) else None) \<and>
         (X_offset P = None \<longrightarrow> X_sparse_scaling L = replicate (snd (shape X)) 0) \<and>
         (\<forall>off sc. X_offset P = Some off \<longrightarrow> X_scale P = Some sc \<longrightarrow>
            length off = length sc \<longrightarrow> X_sparse_scaling L = map2 (/) off sc)"
proof -
  note r = celer_path_run[OF assms(1)]
  have "call_scaling (mk_call P L X y (grid L ! t) (call_w_init c) (kw_p0 (call_kwargs c))) =
        (if issparse X then Some (X_sparse_scaling L) else None)"
    by (rule call_scaling_mk_call[OF r(8)])
  then have c: "call_scaling c = (if issparse X then Some (X_sparse_scaling L) else None)"
    using run_entry(1)[OF assms] by simp
  have z: "X_offset P = None \<longrightarrow> X_sparse_scaling L = replicate (snd (shape X)) 0"
    using r(4) by (auto simp: sparse_scaling_cases(1))
  have q: "\<forall>off sc. X_offset P = Some off \<longrightarrow> X_scale P = Some sc \<longrightarrow>
            length off = length sc \<longrightarrow> X_sparse_scaling L = map2 (/) off sc"
    using r(4) by (auto simp: sparse_scaling_cases(2) dest: np_divide_same_length)
  show ?thesis using c z q by blast
qed

theorem scaling_vector_passed_when_sparse_witness:
  "\<exists>res L st a c s.
     celer_path (probe_env 3 2) (probe_params\<lparr>X_offset := Some [1, 1], X_scale := Some [2, 2]\<rparr>)
       probe_Xs probe_y probe_heap 0 = Inr (res, L, st) \<and>
     calls st ! 1 = (a, c, s) \<and> issparse probe_Xs \<and>
     X_sparse_scaling L = [1 / 2, 1 / 2] \<and> call_scaling c = Some [1 / 2, 1 / 2]"
proof -
  let ?P = "probe_params\<lparr>X_offset := Some [1, 1], X_scale := Some [2, 2]\<rparr>"
  have c: "solver_contract (probe_env 3 2) ?P (fst (shape probe_Xs)) (snd (shape probe_Xs))"
    using probe_contract[of 3 2 ?P] by (simp add: probe_inputs)
  have s: "sparse_scaling ?P (snd (shape probe_Xs)) = Inr [1 / 2, 1 / 2]"
    by (simp add: sparse_scaling_def np_divide_def)
  have g: "alpha_grid ?P probe_Xs probe_y = Inr [1, 1 / 10]"
    by (simp add: probe_params_def alpha_grid_def)
  from celer_path_total[OF c _ _ probe_inputs(3) s g, of probe_heap 0]
  obtain res L st where
    run: "celer_path (probe_env 3 2) ?P probe_Xs probe_y probe_heap 0 = Inr (res, L, st)"
    by (auto simp: probe_inputs)
  obtain a c s where cs: "calls st ! 1 = (a, c, s)" by (cases "calls st ! 1")
  have "grid L = [1, 1 / 10]" by (rule Inr_same[OF celer_path_run(5)[OF run] g])
  then have t: "1 < length (grid L)" by simp
  have sp: "issparse probe_Xs" by (simp add: probe_Xs_def)
  from scaling_vector_passed_when_sparse[OF run t cs] sp
  have "X_sparse_scaling L = [1 / 2, 1 / 2]" "call_scaling c = Some [1 / 2, 1 / 2]"
    by simp_all
  then show ?thesis using run cs sp by blast
qed

text \<open>
  C5, as the claim states it, fails: a grid with a repeated value comes back with the
  repetition, so it is not strictly descending.
\<close>

theorem repeated_alphas_not_strict:
  "returned (celer_path (probe_env 3 2) (probe_params\<lparr>alphas := Some [1, 1]\<rparr>)
      probe_X probe_y probe_heap 0) =
     Inr (Base [1, 1] [[1, 1], [1, 1]] [1 / 20, 1 / 20]) \<and>
   \<not> sorted_wrt (>) (result_alphas (Base [1, 1] [[1, 1], [1, 1]] [1 / 20, 1 / 20]))"
  by (simp add: run_defs probe_defs upt_rec Let_def)

text \<open>
  C5, amended. For a caller-supplied grid, the grid returned is the supplied values
  sorted in descending order: a rearrangement of them in which no value is smaller than
  the next, and every value is larger than the next when the supplied values are
  pairwise distinct. The solver is called on the grid values in that order.
\<close>

theorem supplied_grid_sorted_descending:
  assumes "celer_path E P X y h x = Inr (res, L, st)"
    and "alphas P = Some al"
  shows "result_alphas res = rev (sort al) \<and>
         map (\<lambda>(a, c, s). call_alpha c) (calls st) = rev (sort al) \<and>
         mset (result_alphas res) = mset al \<and>
         sorted_wrt (\<ge>) (result_alphas res) \<and>
         (distinct al \<longrightarrow> sorted_wrt (>) (result_alphas res))"
proof -
  have g: "grid L = rev (sort al)"
    using celer_path_run(5)[OF assms(1)] assms(2) by (simp add: alpha_grid_def)
  have r: "result_alphas res = rev (sort al)"
    using celer_path_run(11)[OF assms(1)] g by (simp add: assemble_fields)
  have c: "map (\<lambda>(a, c, s). call_alpha c) (calls st) = rev (sort al)"
    using run_call_alphas[OF assms(1)] g by simp
  show ?thesis
    unfolding c r using rev_sort_descending[of al] by blast
qed

theorem supplied_grid_sorted_descending_witness:
  "\<exists>res L st.
     celer_path (probe_env 3 2) probe_params probe_X probe_y probe_heap 0 = Inr (res, L, st) \<and>
     alphas probe_params = Some [1 / 10, 1] \<and>
     result_alphas res = [1, 1 / 10] \<and>
     map (\<lambda>(a, c, s). call_alpha c) (calls st) = [1, 1 / 10] \<and>
     sorted_wrt (>) (result_alphas res)"
proof -
  from probe_run obtain L st where
    run: "celer_path (probe_env 3 2) probe_params probe_X probe_y probe_heap 0 =
            Inr (Base [1, 1 / 10] [[1, 1], [1 / 10, 1 / 10]] [1 / 20, 1 / 200], L, st)"
    by (rule returned_InrE)
  have al: "alphas probe_params = Some [1 / 10, 1]" by (simp add: probe_params_def)
  from supplied_grid_sorted_descending[OF run al]
  have "map (\<lambda>(a, c, s). call_alpha c) (calls st) = [1, 1 / 10]" by simp
  then show ?thesis using run al by auto
qed

text \<open>
  C10. With an explicit grid, the value of \<^verbatim>\<open>n_alphas\<close> has no effect on the run:
  any other value gives the same outcome. The number of solver calls and the sizes of
  the grid, the coefficient, gap and dual-point collections, and of the monitored
  trajectories, are the length of the supplied grid.
\<close>

theorem explicit_grid_ignores_n_alphas:
  assumes "alphas P = Some al"
  shows "celer_path E (P\<lparr>n_alphas := k\<rparr>) X y h x = celer_path E P X y h x \<and>
         (\<forall>res L st. celer_path E P X y h x = Inr (res, L, st) \<longrightarrow>
            length (calls st) = length al \<and>
            length (result_alphas res) = length al \<and>
            length (result_coefs res) = length al \<and>
            length (result_gaps res) = length al \<and>
            length (thetas st) = length al \<and>
            (return_thetas P \<longrightarrow> result_thetas res = Some (thetas st)) \<and>
            (monitor P \<longrightarrow> length (gaps_per_alpha st) = length al \<and>
                          length (times_per_alpha st) = length al) \<and>
            (return_thetas P \<and> monitor P \<longrightarrow>
               result_monitor res = Some (gaps_per_alpha st, times_per_alpha st)))"
proof (intro conjI allI impI)
  show "celer_path E (P\<lparr>n_alphas := k\<rparr>) X y h x = celer_path E P X y h x"
    by (rule celer_path_n_alphas[OF assms])
next
  fix res L st assume run: "celer_path E P X y h x = Inr (res, L, st)"
  have "alpha_grid P X y = Inr (rev (sort al))" using assms by (simp add: alpha_grid_def)
  then have "grid L = rev (sort al)" by (rule Inr_same[OF celer_path_run(5)[OF run]])
  then have g: "length (grid L) = length al" by simp
  note r = celer_path_run(11)[OF run]
  show "length (calls st) = length al" using run_sizes(5)[OF run] g by simp
  show "length (result_alphas res) = length al" using run_sizes(1)[OF run] g by simp
  show "length (result_coefs res) = length al" using run_sizes(2)[OF run] g by simp
  show "length (result_gaps res) = length al" using run_sizes(3)[OF run] g by simp
  show "length (thetas st) = length al" using run_sizes(4)[OF run] g by simp
  show "result_thetas res = Some (thetas st)" if "return_thetas P"
    using r that by (simp add: assemble_fields)
  show "length (gaps_per_alpha st) = length al" if "monitor P"
    using run_sizes(6)[OF run that] g by simp
  show "length (times_per_alpha st) = length al" if "monitor P"
    using run_sizes(7)[OF run that] g by simp
  show "result_monitor res = Some (gaps_per_alpha st, times_per_alpha st)"
    if "return_thetas P \<and> monitor P"
    using r that by (simp add: assemble_fields)
qed

theorem explicit_grid_ignores_n_alphas_witness:
  "alphas probe_params = Some [1 / 10, 1] \<and>
   celer_path (probe_env 3 2) (probe_params\<lparr>n_alphas := 7\<rparr>) probe_X probe_y probe_heap 0 =
     celer_path (probe_env 3 2) probe_params probe_X probe_y probe_heap 0 \<and>
   (\<exists>res L st.
      celer_path (probe_env 3 2) probe_params probe_X probe_y probe_heap 0 = Inr (res, L, st) \<and>
      n_alphas probe_params = 100 \<and> length (calls st) = 2 \<and>
      length (result_coefs res) = 2 \<and> length (result_gaps res) = 2)"
proof -
  from probe_run obtain L st where
    run: "celer_path (probe_env 3 2) probe_params probe_X probe_y probe_heap 0 =
            Inr (Base [1, 1 / 10] [[1, 1], [1 / 10, 1 / 10]] [1 / 20, 1 / 200], L, st)"
    by (rule returned_InrE)
  have al: "alphas probe_params = Some [1 / 10, 1]" by (simp add: probe_params_def)
  note w = explicit_grid_ignores_n_alphas[OF al, of "probe_env 3 2" 7 probe_X probe_y probe_heap 0]
  from w run have "length (calls st) = 2" by simp
  moreover have "n_alphas probe_params = 100" by (simp add: probe_params_def)
  ultimately show ?thesis using w run al by auto
qed

text \<open>
  C3. The claim holds of the dual points, and of the trajectories when
  \<^verbatim>\<open>return_thetas\<close> is set. With \<^verbatim>\<open>monitor=True\<close> and
  \<^verbatim>\<open>return_thetas=False\<close> the code returns the base tuple only: the test of
  \<^verbatim>\<open>monitor\<close> is nested under the test of \<^verbatim>\<open>return_thetas\<close>, against the
  parameter's documentation (``whether to return timings and gaps for each alpha'').
\<close>

theorem monitor_without_thetas_returns_base:
  "returned (celer_path (probe_env 3 2) (probe_params\<lparr>monitor := True\<rparr>)
      probe_X probe_y probe_heap 0) =
     Inr (Base [1, 1 / 10] [[1, 1], [1 / 10, 1 / 10]] [1 / 20, 1 / 200])"
  by (simp add: run_defs probe_defs upt_rec Let_def)

text \<open>
  C2. \<^verbatim>\<open>celer\<close> does not pass its \<^verbatim>\<open>max_iter\<close> on, so the path runs with the
  default 20 of \<^verbatim>\<open>celer_path\<close>. Called with \<^verbatim>\<open>max_iter=100\<close> on a solver whose
  last gap is \<open>alpha / max_iter\<close>, the adapter returns the gaps of a run with 20, and the
  index-0 slices of the path call with identical parameters hold those of a run with 100.
\<close>

theorem celer_drops_max_iter:
  "celer (probe_env 3 2) probe_X probe_y 1 None 100 10 50000 10 0 0 (1 / 100) 0 probe_heap 0 =
     Inr ([1, 1], [0, 0, 0], [1, 1 / 20], [1 / 2, 1]) \<and>
   celer_spec (probe_env 3 2) probe_X probe_y 1 None 100 10 50000 10 0 0 (1 / 100) 0 probe_heap 0 =
     Inr ([1, 1], [0, 0, 0], [1, 1 / 100], [1 / 2, 1])"
  by (simp add: celer_def celer_spec_def celer_params_def item0_def run_defs probe_defs
      replicate_small upt_rec Let_def)

end
